theory Spec2Isabelle
  imports Main "HOL-Library.Sublist"
begin

section \<open>Text\<close>

text \<open>
  A Python \<open>str\<close> is a sequence of Unicode code points. A text is modelled as the list of
  its code points, each a natural number; \<open>py\<close> turns a literal into such a list.
\<close>

type_synonym str = "nat list"

definition py :: "string \<Rightarrow> str" where
  "py s = map of_char s"

text \<open>
  The whitespace class of CPython (\<open>Py_UNICODE_ISSPACE\<close>): it is what \<open>\s\<close> matches in a
  \<open>str\<close> pattern and what \<open>str.strip()\<close> removes. Note that it contains the four
  separators \<open>0x1C\<close> to \<open>0x1F\<close>.
\<close>

definition is_space :: "nat \<Rightarrow> bool" where
  "is_space c \<longleftrightarrow>
     (9 \<le> c \<and> c \<le> 13) \<or> (28 \<le> c \<and> c \<le> 32) \<or> c = 133 \<or> c = 160 \<or> c = 5760 \<or>
     (8192 \<le> c \<and> c \<le> 8202) \<or> c = 8232 \<or> c = 8233 \<or> c = 8239 \<or> c = 8287 \<or> c = 12288"

text \<open>The class \<open>[\x00-\x1F\x7F]\<close> of the second substitution of \<open>clean_json\<close>.\<close>

definition is_control :: "nat \<Rightarrow> bool" where
  "is_control c \<longleftrightarrow> c \<le> 31 \<or> c = 127"

text \<open>The class \<open>[}\]]\<close>: a closing brace (125) or a closing bracket (93).\<close>

definition is_closer :: "nat \<Rightarrow> bool" where
  "is_closer c \<longleftrightarrow> c = 125 \<or> c = 93"

section \<open>Sanitizer: \<open>clean_json\<close>\<close>

text \<open>
  \<open>trailing_match cs\<close> tells whether \<open>\s*([}\]])\<close> matches at the start of \<open>cs\<close>, the text
  after a comma. The greedy \<open>\s*\<close> takes the whole run of whitespace; giving some of it
  back never helps, since the next character would then be whitespace and not a closer.
\<close>

definition trailing_match :: "str \<Rightarrow> bool" where
  "trailing_match cs =
     (case dropWhile is_space cs of [] \<Rightarrow> False | d # ds \<Rightarrow> is_closer d)"

text \<open>
  \<open>re.sub(r',\s*([}\]])', r'\1', content)\<close>: the text is scanned from the left; where the
  pattern matches, the whole match (comma, whitespace, closer) is replaced by the closer
  and the scan goes on after the match; elsewhere the character is copied.
\<close>

function remove_trailing_commas :: "str \<Rightarrow> str" where
  "remove_trailing_commas [] = []"
| "remove_trailing_commas (c # cs) =
     (if c = 44 \<and> trailing_match cs
      then hd (dropWhile is_space cs) # remove_trailing_commas (tl (dropWhile is_space cs))
      else c # remove_trailing_commas cs)"
  by pat_completeness auto
termination
proof (relation "measure length")
  show "wf (measure length)" by simp
next
  fix c :: nat and cs :: str
  have "length (tl (dropWhile is_space cs)) \<le> length cs"
    using length_dropWhile_le [of is_space cs] by simp
  then show "(tl (dropWhile is_space cs), c # cs) \<in> measure length" by simp
next
  fix c :: nat and cs :: str
  show "(cs, c # cs) \<in> measure length" by simp
qed

text \<open>\<open>re.sub(r'[\x00-\x1F\x7F]', '', content)\<close>: every control character is dropped.\<close>

definition remove_control :: "str \<Rightarrow> str" where
  "remove_control s = filter (\<lambda>c. \<not> is_control c) s"

definition clean_json :: "str \<Rightarrow> str" where
  "clean_json content = remove_control (remove_trailing_commas content)"

text \<open>
  \<open>has_trailing_comma s\<close>: the pattern \<open>,\s*[}\]]\<close> occurs somewhere in \<open>s\<close>.
\<close>

fun has_trailing_comma :: "str \<Rightarrow> bool" where
  "has_trailing_comma [] = False"
| "has_trailing_comma (c # cs) = ((c = 44 \<and> trailing_match cs) \<or> has_trailing_comma cs)"

text \<open>
  \<open>has_double_comma s\<close>: somewhere in \<open>s\<close> two commas are separated by whitespace only.
\<close>

fun has_double_comma :: "str \<Rightarrow> bool" where
  "has_double_comma [] = False"
| "has_double_comma (c # cs) =
     ((c = 44 \<and> (case dropWhile is_space cs of [] \<Rightarrow> False | d # ds \<Rightarrow> d = 44)) \<or>
      has_double_comma cs)"

section \<open>String operations of Python\<close>

text \<open>
  \<open>s.startswith(p)\<close> is \<open>prefix p s\<close>, \<open>s.endswith(p)\<close> is \<open>suffix p s\<close> and \<open>p in s\<close> is
  \<open>sublist p s\<close>. \<open>str.strip()\<close> removes the whitespace at both ends.
\<close>

definition strip :: "str \<Rightarrow> str" where
  "strip s = rev (dropWhile is_space (rev (dropWhile is_space s)))"

text \<open>
  \<open>str.lower()\<close>, exact on ASCII: the letters \<open>A\<close> to \<open>Z\<close> move to \<open>a\<close> to \<open>z\<close>. Code points
  from 128 on are left alone; Python maps some of them to other non-ASCII code points, which
  cannot change a comparison with the ASCII texts the program compares with.
\<close>

definition lower_char :: "nat \<Rightarrow> nat" where
  "lower_char c = (if 65 \<le> c \<and> c \<le> 90 then c + 32 else c)"

definition lower :: "str \<Rightarrow> str" where
  "lower s = map lower_char s"

text \<open>
  \<open>s.replace(old, new)\<close>: the occurrences of \<open>old\<close> are replaced from the left, without
  overlap. For an empty \<open>old\<close> Python puts \<open>new\<close> before every character and at the end.
\<close>

function replace :: "str \<Rightarrow> str \<Rightarrow> str \<Rightarrow> str" where
  "replace old new s =
     (if old = [] then new @ concat (map (\<lambda>c. c # new) s)
      else if prefix old s then new @ replace old new (drop (length old) s)
      else (case s of [] \<Rightarrow> [] | c # cs \<Rightarrow> c # replace old new cs))"
  by pat_completeness auto
termination
proof (relation "measure (\<lambda>(old, new, s). length s)")
  show "wf (measure (\<lambda>(old, new, s). length s))" by simp
next
  fix old new s :: str
  assume "old \<noteq> []" and "prefix old s"
  then have "0 < length old" and "length old \<le> length s"
    by (simp_all add: prefix_length_le)
  then have "length s - length old < length s"
    by arith
  then show "((old, new, drop (length old) s), (old, new, s)) \<in> measure (\<lambda>(old, new, s). length s)"
    by simp
next
  fix old new s :: str and c :: nat and cs :: str
  assume "s = c # cs"
  then show "((old, new, cs), (old, new, s)) \<in> measure (\<lambda>(old, new, s). length s)"
    by simp
qed

declare replace.simps [simp del]

text \<open>
  \<open>str.isdigit()\<close> and \<open>int(s)\<close>, exact on ASCII input: a non-empty run of the digits \<open>0\<close> to
  \<open>9\<close>, read in base ten (leading zeros allowed).
\<close>

definition isdigit :: "str \<Rightarrow> bool" where
  "isdigit s \<longleftrightarrow> s \<noteq> [] \<and> list_all (\<lambda>c. 48 \<le> c \<and> c \<le> 57) s"

definition int_of_digits :: "str \<Rightarrow> nat" where
  "int_of_digits s = foldl (\<lambda>a c. 10 * a + (c - 48)) 0 s"

section \<open>URL classifier\<close>

text \<open>
  Lines 177 and 178 of \<open>navigate_w3u\<close>: a URL of the paste host that does not contain \<open>raw\<close>
  gets the raw path segment after the host name.
\<close>

definition alias_rewrite :: "str \<Rightarrow> str" where
  "alias_rewrite selected_url =
     (if selected_url \<noteq> [] \<and> sublist (py ''pastebin.com'') selected_url \<and>
         \<not> sublist (py ''raw'') selected_url
      then replace (py ''pastebin.com'') (py ''pastebin.com/raw'') selected_url
      else selected_url)"

datatype kind = SubDocument | Media | WebPage

text \<open>The \<open>if\<close>/\<open>elif\<close>/\<open>else\<close> chain of lines 181 to 190, in its order.\<close>

definition classify :: "str \<Rightarrow> kind" where
  "classify selected_url =
     (if suffix (py ''.w3u'') selected_url \<or> suffix (py ''.json'') selected_url \<or>
         sublist (py ''raw.githubusercontent.com'') selected_url \<or>
         sublist (py ''pastebin.com/raw'') selected_url
      then SubDocument
      else if suffix (py ''.m3u'') selected_url \<or>
         sublist (lower (py ''type=m3u_plus'')) (lower selected_url) \<or>
         suffix (py ''.mkv'') selected_url \<or> suffix (py ''.mp4'') selected_url
      then Media
      else WebPage)"

section \<open>JSON values\<close>

text \<open>
  The values \<open>json.loads\<close> returns: \<open>None\<close>, booleans, integers, strings, lists and
  dictionaries. A dictionary is an association list read through \<open>map_of\<close>. Floating-point
  numbers are left out; for the Navigator a float behaves like an integer (it has no
  \<open>get\<close>, cannot be iterated, and is false exactly when it is zero).
\<close>

datatype json =
    JNull
  | JBool bool
  | JInt int
  | JStr str
  | JArr "json list"
  | JObj "(str \<times> json) list"

text \<open>The exceptions of Python that the modelled code can raise.\<close>

datatype exn =
  AttributeError | TypeError | IndexError | EOFError | OSError | JSONDecodeError

text \<open>Truth value of a Python object, as \<open>if x:\<close> and \<open>not x\<close> take it.\<close>

fun truthy :: "json \<Rightarrow> bool" where
  "truthy JNull = False"
| "truthy (JBool b) = b"
| "truthy (JInt n) = (n \<noteq> 0)"
| "truthy (JStr s) = (s \<noteq> [])"
| "truthy (JArr xs) = (xs \<noteq> [])"
| "truthy (JObj kvs) = (kvs \<noteq> [])"

text \<open>
  \<open>x.get(key, dflt)\<close>, with \<open>dflt\<close> the default: only a dictionary has the method; on any other value the
  attribute lookup raises \<open>AttributeError\<close>.
\<close>

fun dict_get :: "json \<Rightarrow> str \<Rightarrow> json \<Rightarrow> exn + json" where
  "dict_get (JObj kvs) key dflt =
     Inr (case map_of kvs key of None \<Rightarrow> dflt | Some v \<Rightarrow> v)"
| "dict_get _ key dflt = Inl AttributeError"

text \<open>
  The values a \<open>for\<close> loop over \<open>enumerate(x)\<close> visits: the elements of a list, the keys of
  a dictionary, the characters of a string; any other value is not iterable.
\<close>

fun iterate :: "json \<Rightarrow> exn + json list" where
  "iterate (JArr xs) = Inr xs"
| "iterate (JObj kvs) = Inr (map (\<lambda>kv. JStr (fst kv)) kvs)"
| "iterate (JStr s) = Inr (map (\<lambda>c. JStr [c]) s)"
| "iterate _ = Inl TypeError"

text \<open>A \<open>for\<close> loop whose body may raise: the first exception ends the loop.\<close>

fun for_each :: "('a \<Rightarrow> 's \<Rightarrow> exn + 's) \<Rightarrow> 'a list \<Rightarrow> 's \<Rightarrow> exn + 's" where
  "for_each body [] st = Inr st"
| "for_each body (x # xs) st =
     (case body x st of Inl e \<Rightarrow> Inl e | Inr st' \<Rightarrow> for_each body xs st')"

section \<open>Rendering a page\<close>

text \<open>
  \<open>format_url\<close>: \<open>url.startswith\<close> exists on strings only; a leading \<open>https://\<close> is cut.
\<close>

fun format_url :: "json \<Rightarrow> exn + str" where
  "format_url (JStr url) = Inr (if prefix (py ''https://'') url then drop 8 url else url)"
| "format_url _ = Inl AttributeError"

text \<open>
  A printed option line \<open>[index] name - url\<close>: the number of spaces before it, the index
  in brackets, the value printed as name and the formatted URL.
\<close>

record option_line =
  indent :: nat
  index :: nat
  label :: json
  shown_url :: str

text \<open>
  The variables of the render part of the loop body: \<open>option_index\<close>, the list \<open>options\<close> of
  pairs (entry, parent group or \<open>None\<close>), and the lines printed so far.
\<close>

record render_state =
  option_index :: nat
  options :: "(json \<times> json option) list"
  printed :: "option_line list"

text \<open>
  The body shared by the four inner loops: format the URL of the entry, print the line
  with the next index, append the entry with its parent to \<open>options\<close>, and count. The
  default name and the indentation are those of the loop at hand.
\<close>

definition emit :: "nat \<Rightarrow> string \<Rightarrow> json option \<Rightarrow> json \<Rightarrow> render_state \<Rightarrow> exn + render_state" where
  "emit ind default_name parent entry st =
     (case dict_get entry (py ''url'') (JStr (py ''No URL'')) of
        Inl e \<Rightarrow> Inl e
      | Inr url \<Rightarrow>
        (case format_url url of
           Inl e \<Rightarrow> Inl e
         | Inr entry_url \<Rightarrow>
           (case dict_get entry (py ''name'') (JStr (py default_name)) of
              Inl e \<Rightarrow> Inl e
            | Inr name \<Rightarrow>
              Inr \<lparr>option_index = option_index st + 1,
                   options = options st @ [(entry, parent)],
                   printed = printed st @
                     [\<lparr>indent = ind, index = option_index st, label = name,
                       shown_url = entry_url\<rparr>]\<rparr>)))"

text \<open>Lines 139 to 149: a nested group, then the loop over its stations.\<close>

definition nested_group_body :: "json \<Rightarrow> json \<Rightarrow> render_state \<Rightarrow> exn + render_state" where
  "nested_group_body grp nested_group st =
     (case emit 2 ''Unnamed Nested Group'' (Some grp) nested_group st of
        Inl e \<Rightarrow> Inl e
      | Inr st1 \<Rightarrow>
        (case dict_get nested_group (py ''stations'') (JArr []) of
           Inl e \<Rightarrow> Inl e
         | Inr nested_group_stations \<Rightarrow>
           (case iterate nested_group_stations of
              Inl e \<Rightarrow> Inl e
            | Inr nested_stations \<Rightarrow>
              for_each (emit 4 ''Unnamed Nested Station'' (Some nested_group))
                nested_stations st1)))"

text \<open>Lines 126 to 149: a top-level group, its stations, its nested groups.\<close>

definition group_body :: "json \<Rightarrow> render_state \<Rightarrow> exn + render_state" where
  "group_body grp st =
     (case emit 0 ''Unnamed Group'' None grp st of
        Inl e \<Rightarrow> Inl e
      | Inr st1 \<Rightarrow>
        (case dict_get grp (py ''stations'') (JArr []) of
           Inl e \<Rightarrow> Inl e
         | Inr group_stations \<Rightarrow>
           (case iterate group_stations of
              Inl e \<Rightarrow> Inl e
            | Inr stations \<Rightarrow>
              (case for_each (emit 2 ''Unnamed Station'' (Some grp)) stations st1 of
                 Inl e \<Rightarrow> Inl e
               | Inr st2 \<Rightarrow>
                 (case dict_get grp (py ''groups'') (JArr []) of
                    Inl e \<Rightarrow> Inl e
                  | Inr nested_groups \<Rightarrow>
                    (case iterate nested_groups of
                       Inl e \<Rightarrow> Inl e
                     | Inr nested \<Rightarrow> for_each (nested_group_body grp) nested st2))))))"

text \<open>
  Lines 117 to 155: the title, then the option list. The result is the title value and the
  final render state, or the exception that ended the rendering.
\<close>

definition initial_render_state :: render_state where
  "initial_render_state = \<lparr>option_index = 0, options = [], printed = []\<rparr>"

definition render :: "json \<Rightarrow> exn + (json \<times> render_state)" where
  "render data =
     (case dict_get data (py ''name'') (JStr (py ''Unknown'')) of
        Inl e \<Rightarrow> Inl e
      | Inr title \<Rightarrow>
        (case dict_get data (py ''groups'') (JArr []) of
           Inl e \<Rightarrow> Inl e
         | Inr groups \<Rightarrow>
           (case dict_get data (py ''stations'') (JArr []) of
              Inl e \<Rightarrow> Inl e
            | Inr stations \<Rightarrow>
              (if truthy groups then
                 (case iterate groups of
                    Inl e \<Rightarrow> Inl e
                  | Inr gs \<Rightarrow>
                    (case for_each group_body gs initial_render_state of
                       Inl e \<Rightarrow> Inl e
                     | Inr st \<Rightarrow> Inr (title, st)))
               else if truthy stations then
                 (case iterate stations of
                    Inl e \<Rightarrow> Inl e
                  | Inr ss \<Rightarrow>
                    (case for_each (emit 0 ''Unnamed Station'' None) ss initial_render_state of
                       Inl e \<Rightarrow> Inl e
                     | Inr st \<Rightarrow> Inr (title, st)))
               else Inr (title, initial_render_state)))))"

section \<open>The data model of the specification\<close>

text \<open>
  Station, Group and Document as the specification describes them, and the JSON value
  each stands for. An absent URL is an absent key.
\<close>

record station =
  station_name :: str
  station_url :: "str option"

datatype group =
  Group (group_name: str) (group_url: "str option") (group_stations: "station list")
    (group_groups: "group list")

record document =
  document_name :: str
  document_groups :: "group list"
  document_stations :: "station list"

definition url_field :: "str option \<Rightarrow> (str \<times> json) list" where
  "url_field u = (case u of None \<Rightarrow> [] | Some url \<Rightarrow> [(py ''url'', JStr url)])"

definition json_of_station :: "station \<Rightarrow> json" where
  "json_of_station s = JObj ((py ''name'', JStr (station_name s)) # url_field (station_url s))"

fun json_of_group :: "group \<Rightarrow> json" where
  "json_of_group (Group name url stations groups) =
     JObj ((py ''name'', JStr name) # url_field url @
           [(py ''stations'', JArr (map json_of_station stations)),
            (py ''groups'', JArr (map json_of_group groups))])"

definition json_of_document :: "document \<Rightarrow> json" where
  "json_of_document d =
     JObj [(py ''name'', JStr (document_name d)),
           (py ''groups'', JArr (map json_of_group (document_groups d))),
           (py ''stations'', JArr (map json_of_station (document_stations d)))]"

text \<open>
  The option list in the words of the specification: each top-level group, then its direct
  stations, then each directly nested group followed by that group's direct stations; with
  no groups, the top-level stations. An option pairs an entry with its parent group.
\<close>

datatype entry = GroupEntry group | StationEntry station

definition nested_group_options :: "group \<Rightarrow> group \<Rightarrow> (entry \<times> group option) list" where
  "nested_group_options g n =
     (GroupEntry n, Some g) # map (\<lambda>s. (StationEntry s, Some n)) (group_stations n)"

definition group_options :: "group \<Rightarrow> (entry \<times> group option) list" where
  "group_options g =
     (GroupEntry g, None) # map (\<lambda>s. (StationEntry s, Some g)) (group_stations g) @
     concat (map (nested_group_options g) (group_groups g))"

definition spec_options :: "document \<Rightarrow> (entry \<times> group option) list" where
  "spec_options d =
     (if document_groups d \<noteq> [] then concat (map group_options (document_groups d))
      else map (\<lambda>s. (StationEntry s, None)) (document_stations d))"

fun json_of_entry :: "entry \<Rightarrow> json" where
  "json_of_entry (GroupEntry g) = json_of_group g"
| "json_of_entry (StationEntry s) = json_of_station s"

definition json_of_option :: "entry \<times> group option \<Rightarrow> json \<times> json option" where
  "json_of_option opt = (json_of_entry (fst opt), map_option json_of_group (snd opt))"

fun entry_name :: "entry \<Rightarrow> str" where
  "entry_name (GroupEntry g) = group_name g"
| "entry_name (StationEntry s) = station_name s"

text \<open>
  A render state is aligned when the counter equals the number of options and the printed
  indices are \<open>0\<close>, \<open>1\<close>, ... in order, one per option.
\<close>

definition aligned :: "render_state \<Rightarrow> bool" where
  "aligned st \<longleftrightarrow> option_index st = length (options st) \<and>
     map index (printed st) = [0..<length (options st)]"

text \<open>
  \<open>appended st opts st'\<close>: from \<open>st\<close> to \<open>st'\<close> the options \<open>opts\<close> of the specification were
  appended, each printed under its name.
\<close>

definition appended :: "render_state \<Rightarrow> (entry \<times> group option) list \<Rightarrow> render_state \<Rightarrow> bool" where
  "appended st opts st' \<longleftrightarrow>
     options st' = options st @ map json_of_option opts \<and>
     map label (printed st') = map label (printed st) @ map (\<lambda>opt. JStr (entry_name (fst opt))) opts"

text \<open>
  The example of the specification: a document \<open>Root\<close> with one group \<open>News\<close> holding one
  station \<open>CNN\<close>, as the JSON value and as a Document of the data model.
\<close>

definition cnn :: json where
  "cnn = JObj [(py ''name'', JStr (py ''CNN'')), (py ''url'', JStr (py ''https://x/cnn.m3u''))]"

definition news :: json where
  "news = JObj [(py ''name'', JStr (py ''News'')), (py ''stations'', JArr [cnn])]"

definition root_document :: json where
  "root_document = JObj [(py ''name'', JStr (py ''Root'')), (py ''groups'', JArr [news])]"

definition cnn_station :: station where
  "cnn_station = \<lparr>station_name = py ''CNN'', station_url = Some (py ''https://x/cnn.m3u'')\<rparr>"

definition news_group :: group where
  "news_group = Group (py ''News'') None [cnn_station] []"

definition root :: document where
  "root = \<lparr>document_name = py ''Root'', document_groups = [news_group], document_stations = []\<rparr>"

section \<open>The world outside the program\<close>

text \<open>
  What the program prints and asks, one constructor per \<open>print\<close> or prompt of the source.
  A printed text is kept as its parts, not as the formatted line.
\<close>

datatype message =
    JsonValidationError
  | CacheLoadError str
  | AskOpenM3U str
  | OpeningInVLC str
  | NewFileSaved str
  | FetchError str
  | PressEnter
  | Title json
  | OptionLine option_line
  | BackQuitMenu
  | ChooseOption
  | NoParentDirectory
  | OpeningInBrowser str
  | InvalidChoice
  | CacheMessage str

text \<open>
  The effects in the order they happen: a \<open>print\<close>, the prompt of an \<open>input\<close>, the screen
  being cleared, \<open>time.sleep(1)\<close>, and the two launchers with the URL they get.
\<close>

datatype event = Print message | Prompt message | ClearScreen | Sleep | Vlc str | Browser str

text \<open>
  A response of \<open>requests.get\<close>: its status, its \<open>text\<close> as first decoded (line 66) and its
  \<open>text\<close> once the encoding is set to UTF-8 (line 76).
\<close>

record response =
  status_code :: nat
  body_text :: str
  body_utf8 :: str

text \<open>
  The library functions the program calls, as parameters: \<open>urlparse(url).path\<close>,
  \<open>requests.get\<close> (\<open>None\<close> when it raises a \<open>RequestException\<close>), \<open>json.loads\<close> (\<open>None\<close> when
  it raises \<open>JSONDecodeError\<close>) and the text \<open>json.dump(data, ensure_ascii=False, indent=4)\<close>
  writes.
\<close>

record env =
  urlpath :: "str \<Rightarrow> str"
  http_get :: "str \<Rightarrow> response option"
  loads :: "str \<Rightarrow> json option"
  dumps :: "json \<Rightarrow> str"

text \<open>
  The state the program changes: the list \<open>history\<close>, the files of the working directory
  (the cache), the lines the user will still type, and the effects so far.
\<close>

record world =
  history :: "str list"
  files :: "str \<rightharpoonup> str"
  inputs :: "str list"
  events :: "event list"

definition say :: "event list \<Rightarrow> world \<Rightarrow> world" where
  "say evs w = w\<lparr>events := events w @ evs\<rparr>"

text \<open>\<open>input(prompt)\<close>: the next line of the user; at the end of the input, \<open>EOFError\<close>.\<close>

definition read_input :: "message \<Rightarrow> world \<Rightarrow> (exn + str) \<times> world" where
  "read_input prompt w =
     (case inputs w of
        [] \<Rightarrow> (Inl EOFError, say [Prompt prompt] w)
      | line # rest \<Rightarrow> (Inr line, (say [Prompt prompt] w)\<lparr>inputs := rest\<rparr>))"

section \<open>Cache store and document loader\<close>

text \<open>\<open>os.path.basename\<close>: what follows the last slash (47).\<close>

definition basename :: "str \<Rightarrow> str" where
  "basename p = rev (takeWhile (\<lambda>c. c \<noteq> 47) (rev p))"

definition get_filename_from_url :: "env \<Rightarrow> str \<Rightarrow> str" where
  "get_filename_from_url env url =
     (let filename = basename (urlpath env url)
      in if filename \<noteq> [] then filename else py ''default.w3u'')"

definition validate_json :: "env \<Rightarrow> str \<Rightarrow> world \<Rightarrow> bool \<times> world" where
  "validate_json env content w =
     (case loads env content of
        Some v \<Rightarrow> (True, w)
      | None \<Rightarrow> (False, say [Print JsonValidationError] w))"

definition revalidate_and_clean_cache :: "env \<Rightarrow> str \<Rightarrow> world \<Rightarrow> (exn + json) \<times> world" where
  "revalidate_and_clean_cache env filename w =
     (case files w filename of
        None \<Rightarrow> (Inl OSError, w)
      | Some content \<Rightarrow>
        (let cleaned_content = clean_json content
         in case validate_json env cleaned_content w of
              (True, w1) \<Rightarrow>
                (case loads env cleaned_content of
                   None \<Rightarrow> (Inl JSONDecodeError, w1)
                 | Some data \<Rightarrow>
                     (Inr data, w1\<lparr>files := (files w1)(filename \<mapsto> cleaned_content)\<rparr>))
            | (False, w1) \<Rightarrow> (Inl JSONDecodeError, w1)))"

text \<open>The handler of lines 88 to 91: report, wait for Enter, return \<open>None\<close>.\<close>

definition fetch_failed :: "str \<Rightarrow> world \<Rightarrow> (exn + json option) \<times> world" where
  "fetch_failed url w =
     (case read_input PressEnter (say [Print (FetchError url)] w) of
        (Inl e, w1) \<Rightarrow> (Inl e, w1)
      | (Inr line, w1) \<Rightarrow> (Inr None, w1))"

text \<open>
  Lines 62 to 91, the \<open>try\<close> block of \<open>fetch_w3u\<close>. \<open>raise_for_status\<close> raises for a status
  from 400 to 599. An \<open>EOFError\<close> of \<open>input\<close> is not caught by the handler.
\<close>

definition download :: "env \<Rightarrow> str \<Rightarrow> str \<Rightarrow> world \<Rightarrow> (exn + json option) \<times> world" where
  "download env url filename w =
     (case http_get env url of
        None \<Rightarrow> fetch_failed url w
      | Some response \<Rightarrow>
        if prefix (py ''#EXTM3U'') (strip (body_text response)) then
          (case read_input (AskOpenM3U url) w of
             (Inl e, w1) \<Rightarrow> (Inl e, w1)
           | (Inr confirm, w1) \<Rightarrow>
               if lower (strip confirm) = py ''y''
               then (Inr None, say [Print (OpeningInVLC url), Sleep, Vlc url] w1)
               else (Inr None, w1))
        else if 400 \<le> status_code response \<and> status_code response < 600 then fetch_failed url w
        else
          (let cleaned_json = clean_json (body_utf8 response)
           in case validate_json env cleaned_json w of
                (False, w1) \<Rightarrow> fetch_failed url w1
              | (True, w1) \<Rightarrow>
                  (case loads env cleaned_json of
                     None \<Rightarrow> fetch_failed url w1
                   | Some data \<Rightarrow>
                       (Inr (Some data),
                        say [Print (NewFileSaved filename)]
                          (w1\<lparr>files := (files w1)(filename \<mapsto> dumps env data)\<rparr>)))))"

text \<open>
  \<open>fetch_w3u\<close>: a cached file that revalidates is the answer; one that does not is removed
  and the URL is fetched.
\<close>

definition fetch_w3u :: "env \<Rightarrow> str \<Rightarrow> world \<Rightarrow> (exn + json option) \<times> world" where
  "fetch_w3u env url w =
     (let filename = get_filename_from_url env url
      in if files w filename \<noteq> None then
           (case revalidate_and_clean_cache env filename w of
              (Inr data, w1) \<Rightarrow> (Inr (Some data), w1)
            | (Inl e, w1) \<Rightarrow>
                if e = JSONDecodeError
                then download env url filename
                       ((say [Print (CacheLoadError filename)] w1)
                          \<lparr>files := (files w1)(filename := None)\<rparr>)
                else (Inl e, w1))
         else download env url filename w)"

section \<open>Navigator\<close>

text \<open>
  What one pass of the \<open>while\<close> loop of \<open>navigate_w3u\<close> ends with: \<open>break\<close>, the next pass,
  an exception, the call \<open>return navigate_w3u(previous_url, ...)\<close> of the back command, or
  the call \<open>navigate_w3u(selected_url, ...)\<close> of a selection, after which the loop goes on.
\<close>

datatype control =
    Break world
  | Continue world
  | Raise exn world
  | ReturnCall str world
  | Call str message world

text \<open>Lines 165 to 171 and 193 to 199: the back command.\<close>

definition go_back :: "world \<Rightarrow> control" where
  "go_back w =
     (if length (history w) > 1 then
        (let previous_url = last (butlast (history w))
         in ReturnCall previous_url (w\<lparr>history := butlast (butlast (history w))\<rparr>))
      else
        (case read_input PressEnter (say [Print NoParentDirectory] w) of
           (Inl e, w1) \<Rightarrow> Raise e w1
         | (Inr line, w1) \<Rightarrow> Continue w1))"

text \<open>
  Lines 174 to 190, for the value of \<open>selected.get("url")\<close>. A value that is false is not
  dispatched. On a true value that is not a string, \<open>in\<close> raises \<open>TypeError\<close> for a number or
  a boolean, and \<open>replace\<close> or \<open>endswith\<close> raises \<open>AttributeError\<close> for a list or a dictionary.
\<close>

definition dispatch :: "env \<Rightarrow> json \<Rightarrow> world \<Rightarrow> control" where
  "dispatch env selected_url w =
     (if \<not> truthy selected_url then Continue w
      else case selected_url of
        JStr url \<Rightarrow>
          (let rewritten = alias_rewrite url
           in if rewritten = [] then Continue w
              else case classify rewritten of
                SubDocument \<Rightarrow>
                  Call rewritten (CacheMessage (get_filename_from_url env rewritten)) w
              | Media \<Rightarrow>
                  Continue (say [Print (OpeningInVLC rewritten), Sleep, Vlc rewritten] w)
              | WebPage \<Rightarrow>
                  Continue (say [Print (OpeningInBrowser rewritten), Sleep, Browser rewritten] w))
      | JArr xs \<Rightarrow> Raise AttributeError w
      | JObj kvs \<Rightarrow> Raise AttributeError w
      | _ \<Rightarrow> Raise TypeError w)"

text \<open>What lines 110 to 158 put on the screen for a page.\<close>

definition page_events :: "message option \<Rightarrow> json \<Rightarrow> render_state \<Rightarrow> event list" where
  "page_events cache_message title rs =
     ClearScreen # (case cache_message of None \<Rightarrow> [] | Some m \<Rightarrow> [Print m]) @
     Print (Title title) # map (\<lambda>l. Print (OptionLine l)) (printed rs) @ [Print BackQuitMenu]"

text \<open>
  One pass of the loop, lines 110 to 202. When the rendering raises, the lines printed
  before the exception are not recorded.
\<close>

definition loop_body :: "env \<Rightarrow> json \<Rightarrow> message option \<Rightarrow> world \<Rightarrow> control" where
  "loop_body env data cache_message w =
     (case render data of
        Inl e \<Rightarrow> Raise e (say [ClearScreen] w)
      | Inr (title, rs) \<Rightarrow>
        (case read_input ChooseOption (say (page_events cache_message title rs) w) of
           (Inl e, w1) \<Rightarrow> Raise e w1
         | (Inr line, w1) \<Rightarrow>
           (let choice = lower (strip line)
            in if choice = py ''q'' then Break w1
               else if choice = py ''b'' then go_back w1
               else if isdigit choice \<and> int_of_digits choice < option_index rs then
                 (if int_of_digits choice < length (options rs) then
                    (case dict_get (fst (options rs ! int_of_digits choice)) (py ''url'') JNull of
                       Inl e \<Rightarrow> Raise e w1
                     | Inr selected_url \<Rightarrow> dispatch env selected_url w1)
                  else Raise IndexError w1)
               else if choice = [] then go_back w1
               else
                 (case read_input PressEnter (say [Print InvalidChoice] w1) of
                    (Inl e, w2) \<Rightarrow> Raise e w2
                  | (Inr line2, w2) \<Rightarrow> Continue w2))))"

text \<open>How a call of \<open>navigate_w3u\<close> ends: it returns, it raises, or the fuel of the model is used up.\<close>

datatype status = Returned | Raised exn | OutOfFuel

text \<open>
  \<open>navigate_w3u\<close> and its loop. The fuel bounds the number of passes and calls; each pass
  reads a line of input, so a run on a finite input ends with fuel left when the fuel
  exceeds twice the number of lines. After the first pass \<open>cache_message\<close> is \<open>None\<close>.
\<close>

fun navigate_w3u :: "nat \<Rightarrow> env \<Rightarrow> str \<Rightarrow> message option \<Rightarrow> world \<Rightarrow> status \<times> world"
  and navigate_loop :: "nat \<Rightarrow> env \<Rightarrow> json \<Rightarrow> message option \<Rightarrow> world \<Rightarrow> status \<times> world" where
  "navigate_w3u 0 env url cache_message w = (OutOfFuel, w)"
| "navigate_w3u (Suc fuel) env url cache_message w =
     (case fetch_w3u env url w of
        (Inl e, w1) \<Rightarrow> (Raised e, w1)
      | (Inr None, w1) \<Rightarrow> (Returned, w1)
      | (Inr (Some data), w1) \<Rightarrow>
          if \<not> truthy data then (Returned, w1)
          else navigate_loop fuel env data cache_message (w1\<lparr>history := history w1 @ [url]\<rparr>))"
| "navigate_loop 0 env data cache_message w = (OutOfFuel, w)"
| "navigate_loop (Suc fuel) env data cache_message w =
     (case loop_body env data cache_message w of
        Break w1 \<Rightarrow> (Returned, w1)
      | Raise e w1 \<Rightarrow> (Raised e, w1)
      | Continue w1 \<Rightarrow> navigate_loop fuel env data None w1
      | ReturnCall previous_url w1 \<Rightarrow> navigate_w3u fuel env previous_url None w1
      | Call selected_url msg w1 \<Rightarrow>
          (case navigate_w3u fuel env selected_url (Some msg) w1 of
             (Returned, w2) \<Rightarrow> navigate_loop fuel env data None w2
           | (Raised e, w2) \<Rightarrow> (Raised e, w2)
           | (OutOfFuel, w2) \<Rightarrow> (OutOfFuel, w2)))"

(*DEFS*)

section \<open>Properties of the sanitizer\<close>

lemmas text_eval = py_def is_space_def is_control_def is_closer_def trailing_match_def
  remove_control_def clean_json_def

lemma no_trailing_comma_fixed: "\<not> has_trailing_comma s \<Longrightarrow> remove_trailing_commas s = s"
  by (induction s) auto

lemma length_remove_trailing_commas: "length (remove_trailing_commas s) \<le> length s"
proof (induction s rule: remove_trailing_commas.induct)
  case 1 show ?case by simp
next
  case (2 c cs)
  have "length (tl (dropWhile is_space cs)) \<le> length cs"
    using length_dropWhile_le [of is_space cs] by simp
  with 2 show ?case by auto
qed

lemma trailing_comma_shrinks:
  "has_trailing_comma s \<Longrightarrow> length (remove_trailing_commas s) < length s"
proof (induction s rule: remove_trailing_commas.induct)
  case 1 then show ?case by simp
next
  case (2 c cs)
  show ?case
  proof (cases "c = 44 \<and> trailing_match cs")
    case True
    then obtain d ds where d: "dropWhile is_space cs = d # ds"
      by (auto simp: trailing_match_def split: list.splits)
    have "length (d # ds) \<le> length cs" using length_dropWhile_le [of is_space cs] d by simp
    moreover have "length (remove_trailing_commas ds) \<le> length ds"
      by (rule length_remove_trailing_commas)
    ultimately show ?thesis using True d by simp
  next
    case False
    then show ?thesis using 2 by auto
  qed
qed

lemma control_free_clean_json: "remove_control (clean_json x) = clean_json x"
  by (simp add: clean_json_def remove_control_def)

lemma clean_json_fixed_iff:
  "clean_json (clean_json x) = clean_json x \<longleftrightarrow> \<not> has_trailing_comma (clean_json x)"
proof
  assume eq: "clean_json (clean_json x) = clean_json x"
  show "\<not> has_trailing_comma (clean_json x)"
  proof
    assume "has_trailing_comma (clean_json x)"
    then have "length (remove_trailing_commas (clean_json x)) < length (clean_json x)"
      by (rule trailing_comma_shrinks)
    moreover have "length (clean_json (clean_json x)) \<le> length (remove_trailing_commas (clean_json x))"
      unfolding clean_json_def [of "clean_json x"] remove_control_def by (rule length_filter_le)
    ultimately show False using eq by simp
  qed
next
  assume "\<not> has_trailing_comma (clean_json x)"
  then have "remove_trailing_commas (clean_json x) = clean_json x"
    by (rule no_trailing_comma_fixed)
  then show "clean_json (clean_json x) = clean_json x"
    using control_free_clean_json [of x] by (simp add: clean_json_def [of "clean_json x"])
qed

lemma spaces_not_comma: "is_space c \<Longrightarrow> c \<noteq> 44"
  by (auto simp: is_space_def)

lemma closer_not_comma: "is_closer c \<Longrightarrow> c \<noteq> 44"
  by (auto simp: is_closer_def)

lemma closer_not_space: "is_closer c \<Longrightarrow> \<not> is_space c"
  by (auto simp: is_closer_def is_space_def)

lemma dropWhile_remove_trailing_commas:
  "dropWhile is_space (remove_trailing_commas cs) = remove_trailing_commas (dropWhile is_space cs)"
proof (induction cs)
  case Nil show ?case by simp
next
  case (Cons c cs)
  show ?case
  proof (cases "is_space c")
    case True
    then have "c \<noteq> 44" by (rule spaces_not_comma)
    then show ?thesis using True Cons by simp
  next
    case False
    show ?thesis
    proof (cases "c = 44 \<and> trailing_match cs")
      case True
      then obtain d ds where d: "dropWhile is_space cs = d # ds" "is_closer d"
        by (auto simp: trailing_match_def split: list.splits)
      then show ?thesis using True False closer_not_space by simp
    next
      case F2: False
      then show ?thesis using False by auto
    qed
  qed
qed

lemma has_double_comma_dropWhile: "has_double_comma (dropWhile P cs) \<Longrightarrow> has_double_comma cs"
  by (induction cs) (auto split: if_splits)

lemma has_double_comma_tl: "has_double_comma (tl cs) \<Longrightarrow> has_double_comma cs"
  by (cases cs) auto

lemma trailing_match_after_removal:
  assumes "trailing_match (remove_trailing_commas cs)"
  shows "trailing_match cs \<or> (case dropWhile is_space cs of [] \<Rightarrow> False | d # ds \<Rightarrow> d = 44)"
proof (cases "dropWhile is_space cs")
  case Nil
  with assms show ?thesis
    by (simp add: trailing_match_def dropWhile_remove_trailing_commas)
next
  case (Cons e es)
  with assms show ?thesis
    by (auto simp: trailing_match_def dropWhile_remove_trailing_commas split: if_splits)
qed

lemma no_double_comma_removed:
  "\<not> has_double_comma s \<Longrightarrow> \<not> has_trailing_comma (remove_trailing_commas s)"
proof (induction s rule: remove_trailing_commas.induct)
  case 1 show ?case by simp
next
  case (2 c cs)
  show ?case
  proof (cases "c = 44 \<and> trailing_match cs")
    case True
    then obtain d ds where d: "dropWhile is_space cs = d # ds" "is_closer d"
      by (auto simp: trailing_match_def split: list.splits)
    have "\<not> has_double_comma cs" using "2.prems" by simp
    then have "\<not> has_double_comma (dropWhile is_space cs)"
      using has_double_comma_dropWhile [of is_space cs] by blast
    then have "\<not> has_double_comma (tl (dropWhile is_space cs))"
      using has_double_comma_tl [of "dropWhile is_space cs"] by blast
    with "2.IH"(1) True have "\<not> has_trailing_comma (remove_trailing_commas ds)" using d by simp
    then show ?thesis using True d closer_not_comma by simp
  next
    case False
    have ih: "\<not> has_trailing_comma (remove_trailing_commas cs)"
      using "2.IH"(2) False "2.prems" by simp
    have "\<not> (c = 44 \<and> trailing_match (remove_trailing_commas cs))"
    proof
      assume a: "c = 44 \<and> trailing_match (remove_trailing_commas cs)"
      then have "trailing_match cs \<or> (case dropWhile is_space cs of [] \<Rightarrow> False | d # ds \<Rightarrow> d = 44)"
        using trailing_match_after_removal by blast
      then show False using a False "2.prems" by auto
    qed
    moreover have "remove_trailing_commas (c # cs) = c # remove_trailing_commas cs"
      using False by auto
    ultimately show ?thesis using ih by (simp del: remove_trailing_commas.simps)
  qed
qed

lemma set_remove_trailing_commas: "set (remove_trailing_commas s) \<subseteq> set s"
proof (induction s rule: remove_trailing_commas.induct)
  case 1 show ?case by simp
next
  case (2 c cs)
  show ?case
  proof (cases "c = 44 \<and> trailing_match cs")
    case True
    then obtain d ds where d: "dropWhile is_space cs = d # ds"
      by (auto simp: trailing_match_def split: list.splits)
    have "set (d # ds) \<subseteq> set cs" using set_dropWhileD [of _ is_space cs] d by auto
    then show ?thesis using True d "2.IH"(1) by auto
  next
    case False
    then show ?thesis using "2.IH"(2) by auto
  qed
qed

lemma trailing_match_remove_control:
  "\<forall>c\<in>set cs. is_control c \<longrightarrow> is_space c \<Longrightarrow>
   trailing_match (remove_control cs) \<Longrightarrow> trailing_match cs"
  by (induction cs) (auto simp: trailing_match_def remove_control_def split: if_splits)

lemma no_trailing_comma_remove_control:
  "\<forall>c\<in>set s. is_control c \<longrightarrow> is_space c \<Longrightarrow> \<not> has_trailing_comma s \<Longrightarrow>
   \<not> has_trailing_comma (remove_control s)"
proof (induction s)
  case Nil show ?case by (simp add: remove_control_def)
next
  case (Cons c cs)
  have ih: "\<not> has_trailing_comma (remove_control cs)" using Cons by simp
  show ?case
  proof (cases "is_control c")
    case True then show ?thesis using ih by (simp add: remove_control_def)
  next
    case False
    have "remove_control (c # cs) = c # remove_control cs" using False by (simp add: remove_control_def)
    moreover have "trailing_match (remove_control cs) \<Longrightarrow> trailing_match cs"
      using trailing_match_remove_control Cons.prems(1) by simp
    ultimately show ?thesis using ih Cons.prems(2) by auto
  qed
qed

text \<open>
  Claim C1, as amended. Sanitizing twice equals sanitizing once exactly when the sanitized
  text has no comma left that is followed by optional whitespace and a closing brace or
  bracket. This is the case for every input in which no two commas are separated by
  whitespace only and every control character is a whitespace character.
\<close>

theorem clean_json_idempotent_iff:
  "(clean_json (clean_json x) = clean_json x \<longleftrightarrow> \<not> has_trailing_comma (clean_json x)) \<and>
   (\<not> has_double_comma x \<and> (\<forall>c\<in>set x. is_control c \<longrightarrow> is_space c) \<longrightarrow>
      clean_json (clean_json x) = clean_json x)"
proof (intro conjI impI)
  show "clean_json (clean_json x) = clean_json x \<longleftrightarrow> \<not> has_trailing_comma (clean_json x)"
    by (rule clean_json_fixed_iff)
next
  assume a: "\<not> has_double_comma x \<and> (\<forall>c\<in>set x. is_control c \<longrightarrow> is_space c)"
  then have "\<not> has_trailing_comma (remove_trailing_commas x)"
    by (simp add: no_double_comma_removed)
  moreover have "\<forall>c\<in>set (remove_trailing_commas x). is_control c \<longrightarrow> is_space c"
    using a set_remove_trailing_commas [of x] by blast
  ultimately have "\<not> has_trailing_comma (clean_json x)"
    unfolding clean_json_def by (rule no_trailing_comma_remove_control [rotated])
  then show "clean_json (clean_json x) = clean_json x"
    by (simp add: clean_json_fixed_iff)
qed

text \<open>
  The sanitizer is not idempotent on every text: from \<open>,,}\<close> the first pass removes the
  second comma only, and a second pass removes the first.
\<close>

theorem clean_json_not_idempotent:
  "clean_json (clean_json (py '',,}'')) \<noteq> clean_json (py '',,}'')"
  by (simp add: text_eval)

theorem clean_json_idempotent_iff_witness:
  \<open>\<not> has_double_comma (py ''{"a":1,}'') \<and>
   filter (\<lambda>c. is_control c \<and> \<not> is_space c) (py ''{"a":1,}'') = [] \<and>
   clean_json (py ''{"a":1,}'') = py ''{"a":1}'' \<and>
   clean_json (clean_json (py ''{"a":1,}'')) = clean_json (py ''{"a":1,}'')\<close>
  using clean_json_idempotent_iff [of \<open>py ''{"a":1,}''\<close>]
  by (simp add: text_eval)

section \<open>Properties of the URL classifier\<close>

lemma replace_contains_new:
  "old \<noteq> [] \<Longrightarrow> sublist old s \<Longrightarrow> sublist new (replace old new s)"
proof (induction old new s rule: replace.induct)
  case (1 old new s)
  show ?case
  proof (cases "prefix old s")
    case True
    then have "replace old new s = new @ replace old new (drop (length old) s)"
      using "1.prems"(1) by (simp add: replace.simps [of old new s])
    then show ?thesis by (simp add: sublist_append_rightI)
  next
    case False
    show ?thesis
    proof (cases s)
      case Nil
      then show ?thesis using "1.prems" by simp
    next
      case (Cons c cs)
      then have "sublist old cs"
        using "1.prems"(2) False by (simp add: sublist_Cons_right)
      then have "sublist new (replace old new cs)"
        using "1.IH"(2) [OF "1.prems"(1) False Cons "1.prems"(1)] by simp
      moreover have "replace old new s = c # replace old new cs"
        using "1.prems"(1) False unfolding Cons by (subst replace.simps) simp
      ultimately show ?thesis by (simp add: sublist_Cons_right)
    qed
  qed
qed

lemma raw_in_new: "sublist (py ''raw'') (py ''pastebin.com/raw'')"
  by (simp add: py_def sublist_Cons_right)

lemma alias_rewrite_idempotent: "alias_rewrite (alias_rewrite u) = alias_rewrite u"
proof (cases "u \<noteq> [] \<and> sublist (py ''pastebin.com'') u \<and> \<not> sublist (py ''raw'') u")
  case True
  have ne: "py ''pastebin.com'' \<noteq> []" by (simp add: py_def)
  have "sublist (py ''pastebin.com/raw'') (alias_rewrite u)"
    using True replace_contains_new [OF ne, of u] by (simp add: alias_rewrite_def)
  then have "sublist (py ''raw'') (alias_rewrite u)"
    using raw_in_new sublist_order.order_trans by blast
  then show ?thesis by (simp add: alias_rewrite_def [of "alias_rewrite u"])
next
  case False
  then have "alias_rewrite u = u" by (auto simp: alias_rewrite_def)
  then show ?thesis by simp
qed

lemma ex1: "alias_rewrite (py ''https://pastebin.com/abc123'') = py ''https://pastebin.com/raw/abc123''"
  by (simp add: alias_rewrite_def py_def sublist_Cons_right replace.simps)

text \<open>
  Claim C6. The alias rewrite is idempotent: a rewritten URL contains \<open>raw\<close>, so a second
  rewrite leaves it alone; \<open>https://pastebin.com/abc123\<close> becomes
  \<open>https://pastebin.com/raw/abc123\<close>. Classification is a total function into the three
  classes, decided in priority order: sub-document by its patterns, media by its patterns
  when not sub-document, web-page otherwise.
\<close>

theorem classifier_rewrite_and_classes:
  "alias_rewrite (alias_rewrite u) = alias_rewrite u \<and>
   alias_rewrite (py ''https://pastebin.com/abc123'') = py ''https://pastebin.com/raw/abc123'' \<and>
   (classify u = SubDocument \<longleftrightarrow>
      suffix (py ''.w3u'') u \<or> suffix (py ''.json'') u \<or>
      sublist (py ''raw.githubusercontent.com'') u \<or> sublist (py ''pastebin.com/raw'') u) \<and>
   (classify u = Media \<longleftrightarrow>
      classify u \<noteq> SubDocument \<and>
      (suffix (py ''.m3u'') u \<or> sublist (py ''type=m3u_plus'') (lower u) \<or>
       suffix (py ''.mkv'') u \<or> suffix (py ''.mp4'') u)) \<and>
   (classify u = WebPage \<longleftrightarrow> classify u \<noteq> SubDocument \<and> classify u \<noteq> Media)"
proof -
  have low: "lower (py ''type=m3u_plus'') = py ''type=m3u_plus''"
    by (simp add: lower_def lower_char_def py_def)
  have c: "(classify u = SubDocument \<longleftrightarrow>
      suffix (py ''.w3u'') u \<or> suffix (py ''.json'') u \<or>
      sublist (py ''raw.githubusercontent.com'') u \<or> sublist (py ''pastebin.com/raw'') u) \<and>
   (classify u = Media \<longleftrightarrow>
      classify u \<noteq> SubDocument \<and>
      (suffix (py ''.m3u'') u \<or> sublist (py ''type=m3u_plus'') (lower u) \<or>
       suffix (py ''.mkv'') u \<or> suffix (py ''.mp4'') u)) \<and>
   (classify u = WebPage \<longleftrightarrow> classify u \<noteq> SubDocument \<and> classify u \<noteq> Media)"
    unfolding classify_def low by auto
  show ?thesis using alias_rewrite_idempotent ex1 c by blast
qed

theorem classifier_rewrite_and_classes_witness:
  "alias_rewrite (alias_rewrite (py ''https://pastebin.com/abc123'')) = py ''https://pastebin.com/raw/abc123'' \<and>
   classify (py ''https://pastebin.com/raw/abc123'') = SubDocument \<and>
   classify (py ''https://x/cnn.m3u'') = Media \<and>
   classify (py ''https://x/cnn.html'') = WebPage"
proof -
  have a: "classify (py ''https://pastebin.com/raw/abc123'') = SubDocument"
    using classifier_rewrite_and_classes [of "py ''https://pastebin.com/raw/abc123''"]
    by (simp add: py_def sublist_Cons_right suffix_Cons)
  have b: "classify (py ''https://x/cnn.m3u'') = Media"
    by (simp add: classify_def py_def sublist_Cons_right suffix_Cons lower_def lower_char_def)
  have c: "classify (py ''https://x/cnn.html'') = WebPage"
    by (simp add: classify_def py_def sublist_Cons_right suffix_Cons lower_def lower_char_def)
  have d: "alias_rewrite (alias_rewrite (py ''https://pastebin.com/abc123'')) = py ''https://pastebin.com/raw/abc123''"
    using classifier_rewrite_and_classes [of "py ''https://pastebin.com/abc123''"] by metis
  show ?thesis using a b c d by simp
qed

section \<open>Properties of the rendering\<close>

lemma aligned_initial: "aligned initial_render_state"
  by (simp add: aligned_def initial_render_state_def)

lemma emit_aligned: "aligned st \<Longrightarrow> emit ind dn parent entry st = Inr st' \<Longrightarrow> aligned st'"
  by (auto simp: emit_def aligned_def split: sum.splits)

lemma for_each_aligned:
  assumes "\<And>x s s'. aligned s \<Longrightarrow> body x s = Inr s' \<Longrightarrow> aligned s'"
  shows "aligned st \<Longrightarrow> for_each body xs st = Inr st' \<Longrightarrow> aligned st'"
proof (induction xs arbitrary: st)
  case Nil then show ?case by simp
next
  case (Cons x xs)
  then show ?case using assms by (auto split: sum.splits)
qed

lemma for_each_emit_aligned:
  "aligned st \<Longrightarrow> for_each (emit ind dn parent) xs st = Inr st' \<Longrightarrow> aligned st'"
  by (rule for_each_aligned [of "emit ind dn parent"]) (auto dest: emit_aligned)

lemma nested_group_body_aligned:
  assumes "aligned st" and "nested_group_body g n st = Inr st'"
  shows "aligned st'"
proof -
  from assms(2) obtain st1 ss xs where
    e: "emit 2 ''Unnamed Nested Group'' (Some g) n st = Inr st1" and
    f: "for_each (emit 4 ''Unnamed Nested Station'' (Some n)) xs st1 = Inr st'"
    unfolding nested_group_body_def by (auto split: sum.splits)
  from assms(1) e have "aligned st1" by (rule emit_aligned)
  then show ?thesis using f by (rule for_each_emit_aligned)
qed

lemma group_body_aligned:
  assumes "aligned st" and "group_body g st = Inr st'"
  shows "aligned st'"
proof -
  from assms(2) obtain st1 xs st2 ns where
    e: "emit 0 ''Unnamed Group'' None g st = Inr st1" and
    f: "for_each (emit 2 ''Unnamed Station'' (Some g)) xs st1 = Inr st2" and
    n: "for_each (nested_group_body g) ns st2 = Inr st'"
    unfolding group_body_def by (auto split: sum.splits)
  from assms(1) e have "aligned st1" by (rule emit_aligned)
  then have "aligned st2" using f by (rule for_each_emit_aligned)
  then show ?thesis using n
    by (rule for_each_aligned [of "nested_group_body g", rotated]) (rule nested_group_body_aligned)
qed

lemma render_aligned:
  assumes "render data = Inr (title, st)"
  shows "aligned st"
proof -
  from assms consider
    (groups) gs where "for_each group_body gs initial_render_state = Inr st"
  | (stations) ss where "for_each (emit 0 ''Unnamed Station'' None) ss initial_render_state = Inr st"
  | (none) "st = initial_render_state"
    unfolding render_def by (auto split: sum.splits if_splits)
  then show ?thesis
  proof cases
    case groups
    show ?thesis
      by (rule for_each_aligned [of group_body, OF _ aligned_initial groups])
         (rule group_body_aligned)
  next
    case stations
    show ?thesis by (rule for_each_emit_aligned [OF aligned_initial stations])
  next
    case none
    then show ?thesis by (simp add: aligned_initial)
  qed
qed

lemma appended_refl: "appended st [] st"
  by (simp add: appended_def)

lemma appended_trans: "appended st xs st1 \<Longrightarrow> appended st1 ys st2 \<Longrightarrow> appended st (xs @ ys) st2"
  by (simp add: appended_def)

lemma key_distinct:
  "py ''name'' \<noteq> py ''url''" "py ''name'' \<noteq> py ''stations''" "py ''name'' \<noteq> py ''groups''"
  "py ''url'' \<noteq> py ''stations''" "py ''url'' \<noteq> py ''groups''" "py ''stations'' \<noteq> py ''groups''"
  "py ''url'' \<noteq> py ''name''" "py ''stations'' \<noteq> py ''name''" "py ''groups'' \<noteq> py ''name''"
  "py ''stations'' \<noteq> py ''url''" "py ''groups'' \<noteq> py ''url''" "py ''groups'' \<noteq> py ''stations''"
  by (simp_all add: py_def)

lemma station_fields:
  "dict_get (json_of_station s) (py ''name'') dflt = Inr (JStr (station_name s))"
  "dict_get (json_of_station s) (py ''url'') dflt =
     Inr (case station_url s of None \<Rightarrow> dflt | Some u \<Rightarrow> JStr u)"
  by (simp_all add: json_of_station_def url_field_def key_distinct split: option.splits)

lemma group_fields:
  "dict_get (json_of_group g) (py ''name'') dflt = Inr (JStr (group_name g))"
  "dict_get (json_of_group g) (py ''url'') dflt =
     Inr (case group_url g of None \<Rightarrow> dflt | Some u \<Rightarrow> JStr u)"
  "dict_get (json_of_group g) (py ''stations'') dflt =
     Inr (JArr (map json_of_station (group_stations g)))"
  "dict_get (json_of_group g) (py ''groups'') dflt =
     Inr (JArr (map json_of_group (group_groups g)))"
  by (cases g; simp add: url_field_def key_distinct split: option.splits)+

lemma document_fields:
  "dict_get (json_of_document d) (py ''name'') dflt = Inr (JStr (document_name d))"
  "dict_get (json_of_document d) (py ''groups'') dflt =
     Inr (JArr (map json_of_group (document_groups d)))"
  "dict_get (json_of_document d) (py ''stations'') dflt =
     Inr (JArr (map json_of_station (document_stations d)))"
  by (simp_all add: json_of_document_def key_distinct)

lemma format_url_field:
  "\<exists>u. format_url (case x of None \<Rightarrow> JStr d | Some u \<Rightarrow> JStr u) = Inr u"
  by (cases x) simp_all

lemma emit_station:
  "\<exists>st'. emit ind dn parent (json_of_station s) st = Inr st' \<and>
     options st' = options st @ [(json_of_station s, parent)] \<and>
     map label (printed st') = map label (printed st) @ [JStr (station_name s)]"
  using format_url_field [where x = "station_url s" and d = "py ''No URL''"]
  by (auto simp: emit_def station_fields)

lemma emit_group:
  "\<exists>st'. emit ind dn parent (json_of_group g) st = Inr st' \<and>
     options st' = options st @ [(json_of_group g, parent)] \<and>
     map label (printed st') = map label (printed st) @ [JStr (group_name g)]"
  using format_url_field [where x = "group_url g" and d = "py ''No URL''"]
  by (auto simp: emit_def group_fields)

lemma for_each_stations:
  "\<exists>st'. for_each (emit ind dn (map_option json_of_group p)) (map json_of_station ss) st = Inr st' \<and>
     appended st (map (\<lambda>s. (StationEntry s, p)) ss) st'"
proof (induction ss arbitrary: st)
  case Nil
  show ?case by (simp add: appended_refl)
next
  case (Cons s ss)
  obtain st1 where 1: "emit ind dn (map_option json_of_group p) (json_of_station s) st = Inr st1"
    and a1: "appended st [(StationEntry s, p)] st1"
    using emit_station [of ind dn "map_option json_of_group p" s st]
    by (auto simp: appended_def json_of_option_def)
  obtain st' where 2: "for_each (emit ind dn (map_option json_of_group p)) (map json_of_station ss) st1 = Inr st'"
    and a2: "appended st1 (map (\<lambda>s. (StationEntry s, p)) ss) st'"
    using Cons.IH [of st1] by blast
  have "appended st ([(StationEntry s, p)] @ map (\<lambda>s. (StationEntry s, p)) ss) st'"
    using a1 a2 by (rule appended_trans)
  then show ?case using 1 2 by simp
qed

lemma nested_group_body_spec:
  "\<exists>st'. nested_group_body (json_of_group g) (json_of_group n) st = Inr st' \<and>
     appended st (nested_group_options g n) st'"
proof -
  obtain st1 where 1: "emit 2 ''Unnamed Nested Group'' (Some (json_of_group g)) (json_of_group n) st = Inr st1"
    and a1: "appended st [(GroupEntry n, Some g)] st1"
    using emit_group [of 2 "''Unnamed Nested Group''" "Some (json_of_group g)" n st]
    by (auto simp: appended_def json_of_option_def)
  obtain st' where 2: "for_each (emit 4 ''Unnamed Nested Station'' (map_option json_of_group (Some n)))
       (map json_of_station (group_stations n)) st1 = Inr st'"
    and a2: "appended st1 (map (\<lambda>s. (StationEntry s, Some n)) (group_stations n)) st'"
    using for_each_stations [of 4 "''Unnamed Nested Station''" "Some n" "group_stations n" st1] by blast
  have "appended st ([(GroupEntry n, Some g)] @ map (\<lambda>s. (StationEntry s, Some n)) (group_stations n)) st'"
    using a1 a2 by (rule appended_trans)
  then have "appended st (nested_group_options g n) st'"
    by (simp add: nested_group_options_def)
  moreover have "nested_group_body (json_of_group g) (json_of_group n) st = Inr st'"
    using 1 2 by (simp add: nested_group_body_def group_fields)
  ultimately show ?thesis by blast
qed

lemma for_each_nested:
  "\<exists>st'. for_each (nested_group_body (json_of_group g)) (map json_of_group ns) st = Inr st' \<and>
     appended st (concat (map (nested_group_options g) ns)) st'"
proof (induction ns arbitrary: st)
  case Nil
  show ?case by (simp add: appended_refl)
next
  case (Cons n ns)
  obtain st1 where 1: "nested_group_body (json_of_group g) (json_of_group n) st = Inr st1"
    and a1: "appended st (nested_group_options g n) st1"
    using nested_group_body_spec [of g n st] by blast
  obtain st' where 2: "for_each (nested_group_body (json_of_group g)) (map json_of_group ns) st1 = Inr st'"
    and a2: "appended st1 (concat (map (nested_group_options g) ns)) st'"
    using Cons.IH [of st1] by blast
  have "appended st (nested_group_options g n @ concat (map (nested_group_options g) ns)) st'"
    using a1 a2 by (rule appended_trans)
  then show ?case using 1 2 by simp
qed

lemma group_body_spec:
  "\<exists>st'. group_body (json_of_group g) st = Inr st' \<and> appended st (group_options g) st'"
proof -
  obtain st1 where 1: "emit 0 ''Unnamed Group'' None (json_of_group g) st = Inr st1"
    and a1: "appended st [(GroupEntry g, None)] st1"
    using emit_group [of 0 "''Unnamed Group''" None g st]
    by (auto simp: appended_def json_of_option_def)
  obtain st2 where 2: "for_each (emit 2 ''Unnamed Station'' (map_option json_of_group (Some g)))
       (map json_of_station (group_stations g)) st1 = Inr st2"
    and a2: "appended st1 (map (\<lambda>s. (StationEntry s, Some g)) (group_stations g)) st2"
    using for_each_stations [of 2 "''Unnamed Station''" "Some g" "group_stations g" st1] by blast
  obtain st' where 3: "for_each (nested_group_body (json_of_group g))
       (map json_of_group (group_groups g)) st2 = Inr st'"
    and a3: "appended st2 (concat (map (nested_group_options g) (group_groups g))) st'"
    using for_each_nested [of g "group_groups g" st2] by blast
  have "appended st (([(GroupEntry g, None)] @
      map (\<lambda>s. (StationEntry s, Some g)) (group_stations g)) @
      concat (map (nested_group_options g) (group_groups g))) st'"
    using appended_trans [OF appended_trans [OF a1 a2] a3] .
  then have "appended st (group_options g) st'"
    by (simp add: group_options_def)
  moreover have "group_body (json_of_group g) st = Inr st'"
    using 1 2 3 by (simp add: group_body_def group_fields)
  ultimately show ?thesis by blast
qed

lemma for_each_groups:
  "\<exists>st'. for_each group_body (map json_of_group gs) st = Inr st' \<and>
     appended st (concat (map group_options gs)) st'"
proof (induction gs arbitrary: st)
  case Nil
  show ?case by (simp add: appended_refl)
next
  case (Cons g gs)
  obtain st1 where 1: "group_body (json_of_group g) st = Inr st1"
    and a1: "appended st (group_options g) st1"
    using group_body_spec [of g st] by blast
  obtain st' where 2: "for_each group_body (map json_of_group gs) st1 = Inr st'"
    and a2: "appended st1 (concat (map group_options gs)) st'"
    using Cons.IH [of st1] by blast
  have "appended st (group_options g @ concat (map group_options gs)) st'"
    using a1 a2 by (rule appended_trans)
  then show ?case using 1 2 by simp
qed

lemma render_document:
  "\<exists>st. render (json_of_document d) = Inr (JStr (document_name d), st) \<and>
     appended initial_render_state (spec_options d) st"
proof (cases "document_groups d = []")
  case False
  obtain st where 1: "for_each group_body (map json_of_group (document_groups d)) initial_render_state = Inr st"
    and a: "appended initial_render_state (concat (map group_options (document_groups d))) st"
    using for_each_groups [of "document_groups d" initial_render_state] by blast
  have "render (json_of_document d) = Inr (JStr (document_name d), st)"
    using False 1 by (simp add: render_def document_fields)
  then show ?thesis using a False by (auto simp: spec_options_def)
next
  case True
  obtain st where 1: "for_each (emit 0 ''Unnamed Station'' (map_option json_of_group None))
      (map json_of_station (document_stations d)) initial_render_state = Inr st"
    and a: "appended initial_render_state (map (\<lambda>s. (StationEntry s, None)) (document_stations d)) st"
    using for_each_stations [of 0 "''Unnamed Station''" None "document_stations d" initial_render_state]
    by blast
  show ?thesis
  proof (cases "document_stations d = []")
    case False
    have "render (json_of_document d) = Inr (JStr (document_name d), st)"
      using True False 1 by (simp add: render_def document_fields)
    then show ?thesis using a True by (auto simp: spec_options_def)
  next
    case E: True
    have "render (json_of_document d) = Inr (JStr (document_name d), initial_render_state)"
      using True E by (simp add: render_def document_fields)
    then show ?thesis using True E by (auto simp: spec_options_def appended_refl)
  qed
qed

lemma render_root_document:
  "render root_document =
     Inr (JStr (py ''Root''),
       \<lparr>option_index = 2, options = [(news, None), (cnn, Some news)],
        printed = [\<lparr>indent = 0, index = 0, label = JStr (py ''News''), shown_url = py ''No URL''\<rparr>,
                   \<lparr>indent = 2, index = 1, label = JStr (py ''CNN''), shown_url = py ''x/cnn.m3u''\<rparr>]\<rparr>)"
proof -
  have n: "dict_get news (py ''name'') d = Inr (JStr (py ''News''))"
    "dict_get news (py ''url'') d = Inr d"
    "dict_get news (py ''stations'') d = Inr (JArr [cnn])"
    "dict_get news (py ''groups'') d = Inr d" for d
    by (simp_all add: news_def key_distinct)
  have c: "dict_get cnn (py ''name'') d = Inr (JStr (py ''CNN''))"
    "dict_get cnn (py ''url'') d = Inr (JStr (py ''https://x/cnn.m3u''))" for d
    by (simp_all add: cnn_def key_distinct)
  have f: "format_url (JStr (py ''https://x/cnn.m3u'')) = Inr (py ''x/cnn.m3u'')"
    "format_url (JStr (py ''No URL'')) = Inr (py ''No URL'')"
    by (simp_all add: py_def)
  have r: "dict_get root_document (py ''name'') d = Inr (JStr (py ''Root''))"
    "dict_get root_document (py ''groups'') d = Inr (JArr [news])"
    "dict_get root_document (py ''stations'') d = Inr d" for d
    by (simp_all add: root_document_def key_distinct)
  show ?thesis
    by (simp add: render_def r group_body_def emit_def n c f initial_render_state_def
        del: format_url.simps)
qed

text \<open>
  Claim C4. Rendering a Document succeeds and yields exactly the options of the
  specification, in its order: each top-level group, its direct stations, then each nested
  group followed by its stations, or the top-level stations when there is no group. The
  printed indices are \<open>0\<close> to \<open>n - 1\<close>, one per option, each line showing the name of its
  option. Whatever JSON value renders without an exception has contiguous indices, one per
  option. The example document yields two options: index 0 the group \<open>News\<close>, index 1 its
  station \<open>CNN\<close>.
\<close>

theorem render_options_flat_indexed:
  "(\<exists>st. render (json_of_document d) = Inr (JStr (document_name d), st) \<and>
      options st = map json_of_option (spec_options d) \<and>
      map index (printed st) = [0..<length (spec_options d)] \<and>
      map label (printed st) = map (\<lambda>opt. JStr (entry_name (fst opt))) (spec_options d) \<and>
      option_index st = length (spec_options d)) \<and>
   (render data = Inr (title, st') \<longrightarrow>
      option_index st' = length (options st') \<and>
      map index (printed st') = [0..<length (options st')]) \<and>
   (\<exists>st. render root_document = Inr (JStr (py ''Root''), st) \<and>
      options st = [(news, None), (cnn, Some news)] \<and> map index (printed st) = [0, 1])"
proof (intro conjI impI)
  obtain st where r: "render (json_of_document d) = Inr (JStr (document_name d), st)"
    and a: "appended initial_render_state (spec_options d) st"
    using render_document [of d] by blast
  have al: "aligned st" using r by (rule render_aligned)
  have o: "options st = map json_of_option (spec_options d)"
    and l: "map label (printed st) = map (\<lambda>opt. JStr (entry_name (fst opt))) (spec_options d)"
    using a by (simp_all add: appended_def initial_render_state_def)
  have "map index (printed st) = [0..<length (spec_options d)]"
    and "option_index st = length (spec_options d)"
    using al o by (simp_all add: aligned_def)
  then show "\<exists>st. render (json_of_document d) = Inr (JStr (document_name d), st) \<and>
      options st = map json_of_option (spec_options d) \<and>
      map index (printed st) = [0..<length (spec_options d)] \<and>
      map label (printed st) = map (\<lambda>opt. JStr (entry_name (fst opt))) (spec_options d) \<and>
      option_index st = length (spec_options d)"
    using r o l by blast
next
  assume "render data = Inr (title, st')"
  then have "aligned st'" by (rule render_aligned)
  then show "option_index st' = length (options st')"
    and "map index (printed st') = [0..<length (options st')]"
    by (simp_all add: aligned_def)
next
  show "\<exists>st. render root_document = Inr (JStr (py ''Root''), st) \<and>
      options st = [(news, None), (cnn, Some news)] \<and> map index (printed st) = [0, 1]"
    by (simp add: render_root_document)
qed

theorem render_options_flat_indexed_witness:
  "(\<exists>st. render (json_of_document root) = Inr (JStr (py ''Root''), st) \<and>
      options st = [(json_of_group news_group, None),
                    (json_of_station cnn_station, Some (json_of_group news_group))] \<and>
      map index (printed st) = [0, 1] \<and>
      map label (printed st) = [JStr (py ''News''), JStr (py ''CNN'')] \<and>
      option_index st = 2) \<and>
   render root_document = Inr (JStr (py ''Root''),
       \<lparr>option_index = 2, options = [(news, None), (cnn, Some news)],
        printed = [\<lparr>indent = 0, index = 0, label = JStr (py ''News''), shown_url = py ''No URL''\<rparr>,
                   \<lparr>indent = 2, index = 1, label = JStr (py ''CNN''), shown_url = py ''x/cnn.m3u''\<rparr>]\<rparr>) \<and>
   length (options (snd (projr (render root_document)))) = 2"
proof -
  have s: "spec_options root = [(GroupEntry news_group, None), (StationEntry cnn_station, Some news_group)]"
    by (simp add: spec_options_def root_def group_options_def news_group_def)
  have u: "[0..<2] = [0, Suc 0]" by (simp add: upt_rec)
  obtain st where r: "render (json_of_document root) = Inr (JStr (document_name root), st)"
    and o: "options st = map json_of_option (spec_options root)"
    and i: "map index (printed st) = [0..<length (spec_options root)]"
    and l: "map label (printed st) = map (\<lambda>opt. JStr (entry_name (fst opt))) (spec_options root)"
    and n: "option_index st = length (spec_options root)"
    using render_options_flat_indexed [of root root_document "JStr (py ''Root'')"
        "snd (projr (render root_document))"]
    by blast
  have "render (json_of_document root) = Inr (JStr (py ''Root''), st)"
    using r by (simp add: root_def)
  moreover have "options st = [(json_of_group news_group, None),
      (json_of_station cnn_station, Some (json_of_group news_group))]"
    using o by (simp add: s json_of_option_def)
  moreover have "map index (printed st) = [0, 1]"
    using i by (simp add: s u)
  moreover have "map label (printed st) = [JStr (py ''News''), JStr (py ''CNN'')]"
    using l by (simp add: s news_group_def cnn_station_def)
  moreover have "option_index st = 2"
    using n by (simp add: s)
  ultimately have "\<exists>st. render (json_of_document root) = Inr (JStr (py ''Root''), st) \<and>
      options st = [(json_of_group news_group, None),
                    (json_of_station cnn_station, Some (json_of_group news_group))] \<and>
      map index (printed st) = [0, 1] \<and>
      map label (printed st) = [JStr (py ''News''), JStr (py ''CNN'')] \<and>
      option_index st = 2"
    by - (rule exI [of _ st], simp)
  then show ?thesis by (simp add: render_root_document)
qed

text \<open>
  Claim C10. When the groups sequence of a Document is not empty, the rendering depends
  on the groups only: replacing the top-level stations by any other sequence gives the same
  rendering, and the options are those of the groups. The same holds for any JSON object
  whose \<open>groups\<close> value is true: changing its \<open>stations\<close> value changes nothing.
\<close>

theorem groups_hide_top_level_stations:
  "(document_groups d \<noteq> [] \<longrightarrow>
      render (json_of_document (d\<lparr>document_stations := ss\<rparr>)) = render (json_of_document d) \<and>
      (\<exists>st. render (json_of_document d) = Inr (JStr (document_name d), st) \<and>
         options st = map json_of_option (concat (map group_options (document_groups d))))) \<and>
   (map_of kvs (py ''groups'') = Some g \<and> truthy g \<and>
    (\<forall>k. k \<noteq> py ''stations'' \<longrightarrow> map_of kvs' k = map_of kvs k) \<longrightarrow>
      render (JObj kvs') = render (JObj kvs))"
proof (intro conjI impI)
  assume g: "document_groups d \<noteq> []"
  show "render (json_of_document (d\<lparr>document_stations := ss\<rparr>)) = render (json_of_document d)"
    using g by (simp add: render_def document_fields)
  obtain st where r: "render (json_of_document d) = Inr (JStr (document_name d), st)"
    and a: "appended initial_render_state (spec_options d) st"
    using render_document [of d] by blast
  have "options st = map json_of_option (concat (map group_options (document_groups d)))"
    using a g by (simp add: appended_def initial_render_state_def spec_options_def)
  then show "\<exists>st. render (json_of_document d) = Inr (JStr (document_name d), st) \<and>
         options st = map json_of_option (concat (map group_options (document_groups d)))"
    using r by blast
next
  assume a: "map_of kvs (py ''groups'') = Some g \<and> truthy g \<and>
    (\<forall>k. k \<noteq> py ''stations'' \<longrightarrow> map_of kvs' k = map_of kvs k)"
  then have "map_of kvs' (py ''groups'') = Some g" and "map_of kvs' (py ''name'') = map_of kvs (py ''name'')"
    by (simp_all add: key_distinct)
  then show "render (JObj kvs') = render (JObj kvs)"
    using a by (simp add: render_def)
qed

theorem groups_hide_top_level_stations_witness:
  "document_groups root \<noteq> [] \<and>
   render (json_of_document (root\<lparr>document_stations := [cnn_station, cnn_station]\<rparr>)) =
     render (json_of_document root) \<and>
   render (JObj [(py ''stations'', JArr [cnn]), (py ''name'', JStr (py ''Root'')), (py ''groups'', JArr [news])])
     = render root_document"
proof -
  have 1: "document_groups root \<noteq> []" by (simp add: root_def)
  have 2: "render (json_of_document (root\<lparr>document_stations := [cnn_station, cnn_station]\<rparr>)) =
     render (json_of_document root)"
    using groups_hide_top_level_stations [of root "[cnn_station, cnn_station]"] 1 by blast
  have 3: "render (JObj [(py ''stations'', JArr [cnn]), (py ''name'', JStr (py ''Root'')), (py ''groups'', JArr [news])])
     = render (JObj [(py ''name'', JStr (py ''Root'')), (py ''groups'', JArr [news])])"
    by (rule groups_hide_top_level_stations [THEN conjunct2, rule_format, of _ "JArr [news]"])
       (simp add: key_distinct)
  show ?thesis using 1 2 3 by (simp add: root_document_def)
qed

end
